theory Spec2Isabelle
  imports Main
begin

section \<open>Strings\<close>

text \<open>
  A Python \<open>str\<close> is a sequence of code points. HOL's \<open>char\<close> has 256 values, so a
  \<open>string\<close> here is a Python string whose code points lie in U+0000..U+00FF (Latin-1),
  one \<open>char\<close> per code point. On that range \<open>isspace\<close> and \<open>lower_char\<close> below are the
  tables of CPython's \<open>str.isspace\<close> and \<open>str.lower\<close>.
\<close>

text \<open>
  \<open>str.isspace\<close> on one code point; \<open>str.strip()\<close> and the regular expression class
  \<open>\s\<close> (on a \<open>str\<close> pattern) both use it. Below U+0100 the whitespace code points are
  U+0009..U+000D, U+001C..U+0020, U+0085 and U+00A0.
\<close>

definition isspace :: "char \<Rightarrow> bool" where
  "isspace c = (let n = (of_char c :: nat) in
     (9 \<le> n \<and> n \<le> 13) \<or> (28 \<le> n \<and> n \<le> 32) \<or> n = 133 \<or> n = 160)"

text \<open>
  \<open>str.lower\<close> on one code point below U+0100: A..Z and U+00C0..U+00DE except the
  multiplication sign U+00D7 move up by 32, every other code point stays.
\<close>

definition lower_char :: "char \<Rightarrow> char" where
  "lower_char c = (let n = (of_char c :: nat) in
     if (65 \<le> n \<and> n \<le> 90) \<or> (192 \<le> n \<and> n \<le> 222 \<and> n \<noteq> 215)
     then char_of (n + 32) else c)"

definition lower :: "string \<Rightarrow> string" where
  "lower s = map lower_char s"

text \<open>\<open>s.strip()\<close>: drop the whitespace at both ends.\<close>

definition strip :: "string \<Rightarrow> string" where
  "strip s = rev (dropWhile isspace (rev (dropWhile isspace s)))"

section \<open>The parsed tree\<close>

text \<open>
  The objects \<open>process_node\<close> tells apart. A \<open>NavigableString\<close> is a piece of character
  data; \<open>Comment\<close> is one of its subclasses, so a comment passes both
  \<open>isinstance(node, Comment)\<close> and \<open>isinstance(node, NavigableString)\<close>. A \<open>Tag\<close> has a
  name, a dict of attributes and a list of children in document order; the document
  object itself is a \<open>Tag\<close> named \<open>[document]\<close>. \<open>Other\<close> is any object without a \<open>name\<close>
  attribute.

  The values of the dict are strings: \<open>process_node\<close> reads the keys \<open>name\<close>, \<open>property\<close>
  and \<open>content\<close> only, which the parser never turns into lists as it does for \<open>class\<close> or
  \<open>rel\<close>, and an attribute written without a value is stored as the empty string.
\<close>

datatype string_class = Comment | PlainString

datatype node =
    NavigableString string_class string
  | Tag string "string \<rightharpoonup> string" "node list"
  | Other

fun isinstance_Comment :: "node \<Rightarrow> bool" where
  "isinstance_Comment (NavigableString k s) = (k = Comment)"
| "isinstance_Comment (Tag name attrs children) = False"
| "isinstance_Comment Other = False"

fun isinstance_NavigableString :: "node \<Rightarrow> bool" where
  "isinstance_NavigableString (NavigableString k s) = True"
| "isinstance_NavigableString (Tag name attrs children) = False"
| "isinstance_NavigableString Other = False"

text \<open>\<open>node.get(key, default)\<close>: the dict lookup with a default for a missing key.\<close>

definition get :: "(string \<rightharpoonup> string) \<Rightarrow> string \<Rightarrow> string \<Rightarrow> string" where
  "get attrs key dflt = (case attrs key of Some v \<Rightarrow> v | None \<Rightarrow> dflt)"

section \<open>process_node\<close>

definition IGNORE_TAGS :: "string set" where
  "IGNORE_TAGS = {''script'', ''style'', ''noscript'', ''iframe'', ''input'', ''img'', ''link''}"

definition allowed_wrap :: "string set" where
  "allowed_wrap = {''html'', ''head'', ''body'', ''div'', ''span'', ''p'',
     ''h1'', ''h2'', ''h3'', ''h4'', ''h5'', ''h6'',
     ''li'', ''ul'', ''ol'', ''a'', ''button'', ''nav'', ''form''}"

text \<open>
  The tests of the source in their order: comment, string, object without a name, ignored
  tag, \<open>meta\<close>, \<open>title\<close>, then the recursion over the children with or without a wrapper.
  \<open>"".join(process_node(child) for child in node.children)\<close> is \<open>concat (map ...)\<close>.
\<close>

fun process_node :: "node \<Rightarrow> string" where
  "process_node (NavigableString k s) =
     (if k = Comment then ''''
      else (let text = strip s in if text \<noteq> '''' then text else ''''))"
| "process_node Other = ''''"
| "process_node (Tag name attrs children) =
     (let tag = lower name in
      if tag \<in> IGNORE_TAGS then ''''
      else if tag = ''meta'' then
        (let name_attr = lower (get attrs ''name'' '''');
             prop_attr = lower (get attrs ''property'' '''')
         in if name_attr = ''description'' \<or> prop_attr = ''og:description''
            then (let content = strip (get attrs ''content'' '''')
                  in if content \<noteq> '''' then ''<Description>'' @ content @ ''</Description>''
                     else '''')
            else '''')
      else if tag = ''title'' then
        (let content = strip (concat (map process_node children))
         in if content \<noteq> '''' then ''<Title>'' @ content @ ''</Title>'' else '''')
      else
        (let children_content = strip (concat (map process_node children))
         in if children_content = '''' then ''''
            else if tag \<in> allowed_wrap
                 then ''<'' @ tag @ ''>'' @ children_content @ ''</'' @ tag @ ''>''
                 else children_content))"

text \<open>
  The same function with the interpreter's call depth made explicit: \<open>depth\<close> is the
  number of nested calls of \<open>process_node\<close> still allowed, and \<open>None\<close> is the
  \<open>RecursionError\<close> raised when a call is made with none left. The join evaluates the
  children in order and stops at the first one that raises. The branches are those of
  \<open>process_node\<close>, line by line.
\<close>

fun process_node_depth :: "nat \<Rightarrow> node \<Rightarrow> string option" where
  "process_node_depth 0 node = None"
| "process_node_depth (Suc depth) (NavigableString k s) =
     (if k = Comment then Some ''''
      else (let text = strip s in Some (if text \<noteq> '''' then text else '''')))"
| "process_node_depth (Suc depth) Other = Some ''''"
| "process_node_depth (Suc depth) (Tag name attrs children) =
     (let tag = lower name in
      if tag \<in> IGNORE_TAGS then Some ''''
      else if tag = ''meta'' then
        (let name_attr = lower (get attrs ''name'' '''');
             prop_attr = lower (get attrs ''property'' '''')
         in if name_attr = ''description'' \<or> prop_attr = ''og:description''
            then (let content = strip (get attrs ''content'' '''')
                  in Some (if content \<noteq> '''' then ''<Description>'' @ content @ ''</Description>''
                           else ''''))
            else Some '''')
      else if tag = ''title'' then
        (case those (map (process_node_depth depth) children) of
           None \<Rightarrow> None
         | Some parts \<Rightarrow>
             (let content = strip (concat parts)
              in Some (if content \<noteq> '''' then ''<Title>'' @ content @ ''</Title>'' else '''')))
      else
        (case those (map (process_node_depth depth) children) of
           None \<Rightarrow> None
         | Some parts \<Rightarrow>
             (let children_content = strip (concat parts)
              in Some (if children_content = '''' then ''''
                       else if tag \<in> allowed_wrap
                            then ''<'' @ tag @ ''>'' @ children_content @ ''</'' @ tag @ ''>''
                            else children_content))))"

text \<open>The nesting depth of a tree: a leaf has depth 0, a tag one more than its deepest child.\<close>

fun height :: "node \<Rightarrow> nat" where
  "height (NavigableString k s) = 0"
| "height Other = 0"
| "height (Tag name attrs children) = Suc (foldr max (map height children) 0)"

section \<open>minify_html\<close>

text \<open>
  \<open>re.sub(r'\s+', ' ', html_str)\<close>: the scan goes left to right; at a whitespace
  character the greedy \<open>\s+\<close> takes the whole run, which is replaced by one space, and
  the scan goes on after the run; any other character is copied.
\<close>

function re_sub_spaces :: "string \<Rightarrow> string" where
  "re_sub_spaces [] = []"
| "re_sub_spaces (c # cs) =
     (if isspace c then CHR '' '' # re_sub_spaces (dropWhile isspace cs)
      else c # re_sub_spaces cs)"
  by pat_completeness auto
termination
  by (relation "measure length") (auto simp: length_dropWhile_le less_Suc_eq_le)

definition minify_html :: "string \<Rightarrow> string" where
  "minify_html html_str = strip (re_sub_spaces html_str)"

text \<open>
  The specification's wording of the same operation, to compare with the code: cut the
  string into its maximal runs of whitespace and of other characters, replace every
  whitespace run by a single space, and trim the result.
\<close>

fun runs :: "string \<Rightarrow> string list" where
  "runs [] = []"
| "runs (c # cs) =
     (case runs cs of
        [] \<Rightarrow> [[c]]
      | r # rs \<Rightarrow> if isspace c = isspace (hd r) then (c # r) # rs else [c] # r # rs)"

definition collapse_runs :: "string \<Rightarrow> string" where
  "collapse_runs s = concat (map (\<lambda>r. if list_all isspace r then '' '' else r) (runs s))"

definition minify_spec :: "string \<Rightarrow> string" where
  "minify_spec s = strip (collapse_runs s)"

text \<open>
  The shape of a string after the substitution: every whitespace character is a space and
  is followed, if by anything, by a character that is not whitespace.
\<close>

fun collapsed :: "string \<Rightarrow> bool" where
  "collapsed [] = True"
| "collapsed [c] = (isspace c \<longrightarrow> c = CHR '' '')"
| "collapsed (c # d # cs) = ((isspace c \<longrightarrow> c = CHR '' '' \<and> \<not> isspace d) \<and> collapsed (d # cs))"

text \<open>A string that neither starts nor ends with whitespace.\<close>

definition trimmed :: "string \<Rightarrow> bool" where
  "trimmed s = (s = [] \<or> (\<not> isspace (hd s) \<and> \<not> isspace (last s)))"

section \<open>Facts about the tag sets and lower-casing\<close>

lemma tag_sets_disjoint:
  "''meta'' \<notin> IGNORE_TAGS" "''title'' \<notin> IGNORE_TAGS"
  "''meta'' \<notin> allowed_wrap" "''title'' \<notin> allowed_wrap"
  by (simp_all add: IGNORE_TAGS_def allowed_wrap_def)

lemma allowed_not_ignored: "tag \<in> allowed_wrap \<Longrightarrow> tag \<notin> IGNORE_TAGS"
  by (auto simp: IGNORE_TAGS_def allowed_wrap_def)

lemma lower_plain:
  "lower ''meta'' = ''meta''" "lower ''title'' = ''title''" "lower ''div'' = ''div''"
  "lower ''p'' = ''p''" "lower ''span'' = ''span''" "lower ''b'' = ''b''"
  "lower ''a'' = ''a''" "lower ''script'' = ''script''"
  "lower ''description'' = ''description''" "lower ''keywords'' = ''keywords''"
  "lower ''og:description'' = ''og:description''" "lower '''' = ''''"
  by (simp_all add: lower_def lower_char_def char_of_def)

lemma lower_SCRIPT: "lower ''SCRIPT'' = ''script''"
  by code_simp

section \<open>Comments and text\<close>

text \<open>
  C5. A comment reduces to the empty string whatever it holds, although it is a
  NavigableString too, so the comment test comes first. Any other string reduces to its
  character data stripped at both ends, which is the empty string when nothing is left.
\<close>

theorem C5_comment_and_text:
  "process_node (NavigableString Comment s) = ''''
   \<and> isinstance_Comment (NavigableString Comment s)
   \<and> isinstance_NavigableString (NavigableString Comment s)
   \<and> process_node (NavigableString PlainString s) = strip s
   \<and> (strip s = '''' \<longrightarrow> process_node (NavigableString PlainString s) = '''')"
  by (simp add: Let_def)

theorem C5_comment_and_text_witness:
  "strip [CHR '' '', CHR 0x09, CHR '' ''] = ''''
   \<and> process_node (NavigableString PlainString [CHR '' '', CHR 0x09, CHR '' '']) = ''''
   \<and> process_node (NavigableString Comment ''note'') = ''''
   \<and> process_node (NavigableString PlainString ''  Hi there '') = ''Hi there''"
  using C5_comment_and_text [of "[CHR '' '', CHR 0x09, CHR '' '']"]
  by (simp add: strip_def isspace_def)

section \<open>Ignored tags\<close>

text \<open>
  C3. A tag whose lower-cased name is in the ignore set reduces to the empty string whatever
  its children are, and with a call depth of one, so that no child is visited. A \<open>div\<close>
  whose only child is a \<open>script\<close> reduces to the empty string.
\<close>

theorem C3_ignored_tags:
  "(lower name \<in> IGNORE_TAGS \<longrightarrow>
      process_node (Tag name attrs children) = ''''
      \<and> process_node_depth (Suc 0) (Tag name attrs children) = Some '''')
   \<and> process_node (Tag ''div'' Map.empty
         [Tag ''script'' Map.empty [NavigableString PlainString ''ignored'']]) = ''''"
  by (simp add: lower_plain IGNORE_TAGS_def strip_def)

theorem C3_ignored_tags_witness:
  "lower ''SCRIPT'' \<in> IGNORE_TAGS
   \<and> process_node (Tag ''SCRIPT'' [''src'' \<mapsto> ''a.js''] [NavigableString PlainString ''ignored'']) = ''''
   \<and> process_node_depth (Suc 0)
        (Tag ''SCRIPT'' [''src'' \<mapsto> ''a.js''] [NavigableString PlainString ''ignored'']) = Some ''''"
  using C3_ignored_tags [of "''SCRIPT''" "[''src'' \<mapsto> ''a.js'']" "[NavigableString PlainString ''ignored'']"]
  by (simp add: lower_SCRIPT IGNORE_TAGS_def)

section \<open>The meta tag\<close>

text \<open>
  C1. For a tag whose lower-cased name is \<open>meta\<close>: when the lower-cased \<open>name\<close> attribute
  is \<open>description\<close> or the lower-cased \<open>property\<close> attribute is \<open>og:description\<close> (a
  missing attribute counts as the empty string), the result is the stripped \<open>content\<close>
  attribute between \<open><Description>\<close> and \<open></Description>\<close> when it is not empty, and the
  empty string when it is; when neither matches, the result is the empty string. The
  children play no part: the result is the one of the same tag without children, and a call
  depth of one is enough.
\<close>

theorem C1_meta_description:
  "(lower name = ''meta'' \<longrightarrow>
     ((lower (get attrs ''name'' '''') = ''description''
         \<or> lower (get attrs ''property'' '''') = ''og:description'')
        \<and> strip (get attrs ''content'' '''') \<noteq> '''' \<longrightarrow>
       process_node (Tag name attrs children)
         = ''<Description>'' @ strip (get attrs ''content'' '''') @ ''</Description>'')
     \<and> ((lower (get attrs ''name'' '''') = ''description''
         \<or> lower (get attrs ''property'' '''') = ''og:description'')
        \<and> strip (get attrs ''content'' '''') = '''' \<longrightarrow>
       process_node (Tag name attrs children) = '''')
     \<and> (lower (get attrs ''name'' '''') \<noteq> ''description''
        \<and> lower (get attrs ''property'' '''') \<noteq> ''og:description'' \<longrightarrow>
       process_node (Tag name attrs children) = '''')
     \<and> process_node (Tag name attrs children) = process_node (Tag name attrs [])
     \<and> process_node_depth (Suc 0) (Tag name attrs children)
         = Some (process_node (Tag name attrs children)))
   \<and> process_node (Tag ''meta'' [''name'' \<mapsto> ''description'', ''content'' \<mapsto> ''  Hello world  ''] [])
       = ''<Description>Hello world</Description>''
   \<and> process_node (Tag ''meta'' [''property'' \<mapsto> ''og:description'', ''content'' \<mapsto> ''X''] [])
       = ''<Description>X</Description>''
   \<and> process_node (Tag ''meta'' [''name'' \<mapsto> ''keywords'', ''content'' \<mapsto> ''X''] []) = ''''"
  by (simp add: tag_sets_disjoint Let_def lower_plain get_def strip_def isspace_def)

theorem C1_meta_description_witness:
  "lower ''meta'' = ''meta''
   \<and> lower (get [''name'' \<mapsto> ''description'', ''content'' \<mapsto> '' Hi ''] ''name'' '''') = ''description''
   \<and> strip (get [''name'' \<mapsto> ''description'', ''content'' \<mapsto> '' Hi ''] ''content'' '''') \<noteq> ''''
   \<and> process_node (Tag ''meta'' [''name'' \<mapsto> ''description'', ''content'' \<mapsto> '' Hi '']
         [NavigableString PlainString ''x'']) = ''<Description>Hi</Description>''
   \<and> lower (get [''property'' \<mapsto> ''og:description''] ''property'' '''') = ''og:description''
   \<and> strip (get [''property'' \<mapsto> ''og:description''] ''content'' '''') = ''''
   \<and> process_node (Tag ''meta'' [''property'' \<mapsto> ''og:description''] []) = ''''
   \<and> lower (get [''name'' \<mapsto> ''keywords'', ''content'' \<mapsto> ''X''] ''name'' '''') \<noteq> ''description''
   \<and> lower (get [''name'' \<mapsto> ''keywords'', ''content'' \<mapsto> ''X''] ''property'' '''') \<noteq> ''og:description''
   \<and> process_node (Tag ''meta'' [''name'' \<mapsto> ''keywords'', ''content'' \<mapsto> ''X''] []) = ''''"
  using C1_meta_description [of "''meta''" "[''name'' \<mapsto> ''description'', ''content'' \<mapsto> '' Hi '']"
      "[NavigableString PlainString ''x'']"]
    C1_meta_description [of "''meta''" "[''property'' \<mapsto> ''og:description'']" "[]"]
    C1_meta_description [of "''meta''" "[''name'' \<mapsto> ''keywords'', ''content'' \<mapsto> ''X'']" "[]"]
  by (simp add: lower_plain get_def strip_def isspace_def)

section \<open>The title tag\<close>

text \<open>
  C4. For a tag whose lower-cased name is \<open>title\<close> the results of the children are
  concatenated in order and stripped; a non-empty content is returned between \<open><Title>\<close>
  and \<open></Title>\<close>, an empty one gives the empty string. The title with children
  \<open>" A "\<close>, \<open><b>B</b>\<close> and \<open>" "\<close> reduces to \<open><Title>AB</Title>\<close>.
\<close>

theorem C4_title:
  "(lower name = ''title'' \<longrightarrow>
      (strip (concat (map process_node children)) \<noteq> '''' \<longrightarrow>
         process_node (Tag name attrs children)
           = ''<Title>'' @ strip (concat (map process_node children)) @ ''</Title>'')
      \<and> (strip (concat (map process_node children)) = '''' \<longrightarrow>
         process_node (Tag name attrs children) = ''''))
   \<and> process_node (Tag ''title'' Map.empty
         [NavigableString PlainString '' A '',
          Tag ''b'' Map.empty [NavigableString PlainString ''B''],
          NavigableString PlainString '' '']) = ''<Title>AB</Title>''"
  by (simp add: tag_sets_disjoint Let_def lower_plain IGNORE_TAGS_def allowed_wrap_def
      strip_def isspace_def)

theorem C4_title_witness:
  "lower ''title'' = ''title''
   \<and> strip (concat (map process_node [NavigableString PlainString '' Home '',
          NavigableString Comment ''c''])) \<noteq> ''''
   \<and> process_node (Tag ''title'' Map.empty [NavigableString PlainString '' Home '',
          NavigableString Comment ''c'']) = ''<Title>Home</Title>''
   \<and> strip (concat (map process_node [NavigableString PlainString ''  ''])) = ''''
   \<and> process_node (Tag ''title'' Map.empty [NavigableString PlainString ''  '']) = ''''"
  using C4_title [of "''title''" "[NavigableString PlainString '' Home '', NavigableString Comment ''c'']"
      Map.empty]
    C4_title [of "''title''" "[NavigableString PlainString ''  '']" Map.empty]
  by (simp add: lower_plain strip_def isspace_def)

section \<open>Wrapped and transparent tags\<close>

text \<open>
  C2. For a tag that is not ignored and is neither \<open>meta\<close> nor \<open>title\<close>, let the content be
  the stripped concatenation of the children's results. An empty content gives the empty
  string. A non-empty content is returned between \<open><tag>\<close> and \<open></tag>\<close>, with the
  lower-cased name, when that name is in the allow set, and as it is otherwise.
\<close>

theorem C2_wrapper_and_transparent:
  "(lower name \<notin> IGNORE_TAGS \<and> lower name \<noteq> ''meta'' \<and> lower name \<noteq> ''title'' \<longrightarrow>
      \<not> isinstance_Comment (Tag name attrs children)
      \<and> (strip (concat (map process_node children)) = '''' \<longrightarrow>
           process_node (Tag name attrs children) = '''')
      \<and> (strip (concat (map process_node children)) \<noteq> '''' \<and> lower name \<in> allowed_wrap \<longrightarrow>
           process_node (Tag name attrs children)
             = ''<'' @ lower name @ ''>'' @ strip (concat (map process_node children))
               @ ''</'' @ lower name @ ''>'')
      \<and> (strip (concat (map process_node children)) \<noteq> '''' \<and> lower name \<notin> allowed_wrap \<longrightarrow>
           process_node (Tag name attrs children) = strip (concat (map process_node children))))
   \<and> process_node (Tag ''div'' Map.empty
         [Tag ''p'' Map.empty [NavigableString PlainString ''Hi''],
          Tag ''span'' Map.empty [NavigableString PlainString ''  '']]) = ''<div><p>Hi</p></div>''"
  by (simp add: Let_def lower_plain IGNORE_TAGS_def allowed_wrap_def strip_def isspace_def)

theorem C2_wrapper_and_transparent_witness:
  "lower ''div'' \<notin> IGNORE_TAGS \<and> lower ''div'' \<noteq> ''meta'' \<and> lower ''div'' \<noteq> ''title''
   \<and> lower ''div'' \<in> allowed_wrap
   \<and> strip (concat (map process_node [NavigableString PlainString '' Hi ''])) \<noteq> ''''
   \<and> process_node (Tag ''div'' Map.empty [NavigableString PlainString '' Hi '']) = ''<div>Hi</div>''
   \<and> lower ''b'' \<notin> IGNORE_TAGS \<and> lower ''b'' \<noteq> ''meta'' \<and> lower ''b'' \<noteq> ''title''
   \<and> lower ''b'' \<notin> allowed_wrap
   \<and> process_node (Tag ''b'' Map.empty [NavigableString PlainString '' Hi '']) = ''Hi''
   \<and> strip (concat (map process_node [NavigableString Comment ''Hi''])) = ''''
   \<and> process_node (Tag ''div'' Map.empty [NavigableString Comment ''Hi'']) = ''''"
  using C2_wrapper_and_transparent [of "''div''" Map.empty "[NavigableString PlainString '' Hi '']"]
    C2_wrapper_and_transparent [of "''b''" Map.empty "[NavigableString PlainString '' Hi '']"]
    C2_wrapper_and_transparent [of "''div''" Map.empty "[NavigableString Comment ''Hi'']"]
  by (simp add: lower_plain IGNORE_TAGS_def allowed_wrap_def strip_def isspace_def)

section \<open>Attributes\<close>

text \<open>
  C10. The attributes of a tag other than \<open>meta\<close> have no influence on the result: two tags
  with the same name and children reduce to the same string whatever their attributes are.
  For any tag, \<open>meta\<close> included, only the attributes \<open>name\<close>, \<open>property\<close> and \<open>content\<close> can
  matter: two attribute dicts that agree on these three keys give the same result.
\<close>

theorem C10_attributes_ignored:
  "(lower name \<noteq> ''meta'' \<longrightarrow>
      process_node (Tag name attrs children) = process_node (Tag name attrs' children))
   \<and> (attrs ''name'' = attrs' ''name'' \<and> attrs ''property'' = attrs' ''property''
        \<and> attrs ''content'' = attrs' ''content'' \<longrightarrow>
      process_node (Tag name attrs children) = process_node (Tag name attrs' children))"
  by (simp add: Let_def get_def)

theorem C10_attributes_ignored_witness:
  "lower ''a'' \<noteq> ''meta''
   \<and> process_node (Tag ''a'' [''href'' \<mapsto> ''/x'', ''class'' \<mapsto> ''btn''] [NavigableString PlainString ''Go''])
       = process_node (Tag ''a'' Map.empty [NavigableString PlainString ''Go''])
   \<and> [''name'' \<mapsto> ''description'', ''content'' \<mapsto> ''X'', ''id'' \<mapsto> ''m''] ''name''
       = [''name'' \<mapsto> ''description'', ''content'' \<mapsto> ''X''] ''name''
   \<and> [''name'' \<mapsto> ''description'', ''content'' \<mapsto> ''X'', ''id'' \<mapsto> ''m''] ''property''
       = [''name'' \<mapsto> ''description'', ''content'' \<mapsto> ''X''] ''property''
   \<and> [''name'' \<mapsto> ''description'', ''content'' \<mapsto> ''X'', ''id'' \<mapsto> ''m''] ''content''
       = [''name'' \<mapsto> ''description'', ''content'' \<mapsto> ''X''] ''content''
   \<and> process_node (Tag ''meta'' [''name'' \<mapsto> ''description'', ''content'' \<mapsto> ''X'', ''id'' \<mapsto> ''m''] [])
       = process_node (Tag ''meta'' [''name'' \<mapsto> ''description'', ''content'' \<mapsto> ''X''] [])"
  using C10_attributes_ignored [of "''a''" "[''href'' \<mapsto> ''/x'', ''class'' \<mapsto> ''btn'']"
      "[NavigableString PlainString ''Go'']" Map.empty]
    C10_attributes_ignored [of "''meta''"
      "[''name'' \<mapsto> ''description'', ''content'' \<mapsto> ''X'', ''id'' \<mapsto> ''m'']" "[]"
      "[''name'' \<mapsto> ''description'', ''content'' \<mapsto> ''X'']"]
  by (simp add: lower_plain)

section \<open>Stripped strings\<close>

lemma trimmed_Nil: "trimmed []"
  by (simp add: trimmed_def)

lemma trimmed_strip: "trimmed (strip s)"
proof -
  define t where "t = dropWhile isspace s"
  define u where "u = dropWhile isspace (rev t)"
  have s: "strip s = rev u"
    by (simp add: strip_def t_def u_def)
  show ?thesis
  proof (cases "u = []")
    case True
    then show ?thesis by (simp add: s trimmed_def)
  next
    case False
    then have hu: "\<not> isspace (hd u)"
      unfolding u_def by (metis hd_dropWhile)
    from False obtain x where x: "x \<in> set (rev t)" "\<not> isspace x"
      unfolding u_def by auto
    then have "last u = last (rev t)"
      unfolding u_def by (rule dropWhile_last)
    moreover from x have tne: "t \<noteq> []" by auto
    ultimately have "last u = hd t"
      by (simp add: last_rev)
    moreover from tne have "\<not> isspace (hd t)"
      unfolding t_def by (metis hd_dropWhile)
    ultimately have "\<not> isspace (last u)" by simp
    with hu False show ?thesis
      by (simp add: s trimmed_def hd_rev last_rev)
  qed
qed

lemma strip_trimmed: "trimmed s \<Longrightarrow> strip s = s"
proof (cases "s = []")
  case True
  then show ?thesis by (simp add: strip_def)
next
  case False
  assume "trimmed s"
  with False have h: "\<not> isspace (hd s)" and l: "\<not> isspace (last s)"
    by (simp_all add: trimmed_def)
  from h have "dropWhile isspace s = s"
    by (simp add: dropWhile_eq_self_iff)
  moreover from l False have "dropWhile isspace (rev s) = rev s"
    by (simp add: dropWhile_eq_self_iff hd_rev)
  ultimately show ?thesis by (simp add: strip_def)
qed

lemma strip_eq_self_iff: "strip s = s \<longleftrightarrow> trimmed s"
  by (metis strip_trimmed trimmed_strip)

lemma strip_strip: "strip (strip s) = strip s"
  by (simp add: strip_trimmed trimmed_strip)

lemma trimmed_append: "trimmed a \<Longrightarrow> trimmed b \<Longrightarrow> trimmed (a @ b)"
  by (cases "a = []"; cases "b = []") (simp_all add: trimmed_def)

lemma trimmed_concat: "(\<And>s. s \<in> set ss \<Longrightarrow> trimmed s) \<Longrightarrow> trimmed (concat ss)"
  by (induction ss) (simp_all add: trimmed_Nil trimmed_append)

lemma trimmed_brackets: "trimmed (CHR ''<'' # s @ ''>'')"
  by (simp add: trimmed_def isspace_def)

lemma trimmed_process_node: "trimmed (process_node n)"
proof (cases n)
  case (NavigableString k s)
  then show ?thesis by (simp add: Let_def trimmed_Nil trimmed_strip)
next
  case (Tag name attrs children)
  have a: "trimmed (''<Description>'' @ c @ ''</Description>'')" for c
    using trimmed_brackets [of "''Description>'' @ c @ ''</Description''"] by simp
  have b: "trimmed (''<Title>'' @ c @ ''</Title>'')" for c
    using trimmed_brackets [of "''Title>'' @ c @ ''</Title''"] by simp
  have c: "trimmed (''<'' @ t @ ''>'' @ c @ ''</'' @ t @ ''>'')" for t c
    using trimmed_brackets [of "t @ ''>'' @ c @ ''</'' @ t"] by simp
  show ?thesis
    unfolding Tag process_node.simps Let_def
    using a b c by (simp add: trimmed_Nil trimmed_strip del: append.simps)
next
  case Other
  then show ?thesis by (simp add: trimmed_Nil)
qed

lemma strip_concat_process_node:
  "strip (concat (map process_node ns)) = concat (map process_node ns)"
  by (rule strip_trimmed, rule trimmed_concat) (auto simp: trimmed_process_node)

lemma strip_Nil: "strip [] = []"
  by (simp add: strip_def)

section \<open>No outer whitespace\<close>

text \<open>
  C9. The result of \<open>process_node\<close> never starts or ends with whitespace: it is equal to
  its own strip, being empty or having a first and a last character that are not
  whitespace. So the strip applied to the joined results of the children changes nothing.
\<close>

theorem C9_no_outer_whitespace:
  "process_node n = strip (process_node n)
   \<and> trimmed (process_node n)
   \<and> strip (concat (map process_node ns)) = concat (map process_node ns)"
  by (simp add: strip_trimmed trimmed_process_node strip_concat_process_node)

section \<open>The order of the children\<close>

lemma process_node_wrap:
  assumes "lower name \<in> allowed_wrap"
  shows "process_node (Tag name attrs children) =
    (if concat (map process_node children) = '''' then ''''
     else ''<'' @ lower name @ ''>'' @ concat (map process_node children)
          @ ''</'' @ lower name @ ''>'')"
proof -
  from assms have "lower name \<notin> IGNORE_TAGS"
    by (rule allowed_not_ignored)
  moreover from assms have "lower name \<noteq> ''meta''" "lower name \<noteq> ''title''"
    using tag_sets_disjoint by auto
  ultimately show ?thesis
    using assms by (simp add: Let_def strip_concat_process_node)
qed

lemma process_node_title:
  assumes "lower name = ''title''"
  shows "process_node (Tag name attrs children) =
    (if concat (map process_node children) = '''' then ''''
     else ''<Title>'' @ concat (map process_node children) @ ''</Title>'')"
  using assms tag_sets_disjoint by (simp add: Let_def strip_concat_process_node)

lemma process_node_transparent:
  assumes "lower name \<notin> IGNORE_TAGS" "lower name \<noteq> ''meta''" "lower name \<noteq> ''title''"
    "lower name \<notin> allowed_wrap"
  shows "process_node (Tag name attrs children) = concat (map process_node children)"
  using assms by (simp add: Let_def strip_concat_process_node)

text \<open>
  C8. The results of the children are joined in document order with nothing between them.
  For a tag of the allow set whose result is not empty, the result is the wrapper around
  exactly that concatenation; with the three children \<open>text1\<close>, \<open>elementA\<close>, \<open>text2\<close> it is
  the wrapper around the three results in that order. The same holds inside \<open><Title>\<close>, and
  a transparent tag returns the concatenation itself.
\<close>

theorem C8_child_order:
  "(lower name \<in> allowed_wrap \<and> process_node (Tag name attrs children) \<noteq> '''' \<longrightarrow>
      process_node (Tag name attrs children)
        = ''<'' @ lower name @ ''>'' @ concat (map process_node children) @ ''</'' @ lower name @ ''>'')
   \<and> (lower name \<in> allowed_wrap \<and> process_node (Tag name attrs [text1, elementA, text2]) \<noteq> '''' \<longrightarrow>
      process_node (Tag name attrs [text1, elementA, text2])
        = ''<'' @ lower name @ ''>''
          @ (process_node text1 @ process_node elementA @ process_node text2)
          @ ''</'' @ lower name @ ''>'')
   \<and> (lower name = ''title'' \<and> process_node (Tag name attrs children) \<noteq> '''' \<longrightarrow>
      process_node (Tag name attrs children)
        = ''<Title>'' @ concat (map process_node children) @ ''</Title>'')
   \<and> (lower name \<notin> IGNORE_TAGS \<and> lower name \<noteq> ''meta'' \<and> lower name \<noteq> ''title''
        \<and> lower name \<notin> allowed_wrap \<longrightarrow>
      process_node (Tag name attrs children) = concat (map process_node children))"
proof (intro conjI impI)
  assume a: "lower name \<in> allowed_wrap \<and> process_node (Tag name attrs children) \<noteq> ''''"
  then have w: "lower name \<in> allowed_wrap"
    and ne: "process_node (Tag name attrs children) \<noteq> ''''"
    by blast+
  from ne show "process_node (Tag name attrs children)
      = ''<'' @ lower name @ ''>'' @ concat (map process_node children) @ ''</'' @ lower name @ ''>''"
    unfolding process_node_wrap [OF w] by (simp split: if_splits)
next
  assume a: "lower name \<in> allowed_wrap
    \<and> process_node (Tag name attrs [text1, elementA, text2]) \<noteq> ''''"
  then have w: "lower name \<in> allowed_wrap"
    and ne: "process_node (Tag name attrs [text1, elementA, text2]) \<noteq> ''''"
    by blast+
  from ne show "process_node (Tag name attrs [text1, elementA, text2])
      = ''<'' @ lower name @ ''>''
        @ (process_node text1 @ process_node elementA @ process_node text2)
        @ ''</'' @ lower name @ ''>''"
    unfolding process_node_wrap [OF w] by (simp split: if_splits)
next
  assume a: "lower name = ''title'' \<and> process_node (Tag name attrs children) \<noteq> ''''"
  then have t: "lower name = ''title''"
    and ne: "process_node (Tag name attrs children) \<noteq> ''''"
    by blast+
  from ne show "process_node (Tag name attrs children)
      = ''<Title>'' @ concat (map process_node children) @ ''</Title>''"
    unfolding process_node_title [OF t] by (simp split: if_splits)
next
  assume "lower name \<notin> IGNORE_TAGS \<and> lower name \<noteq> ''meta'' \<and> lower name \<noteq> ''title''
        \<and> lower name \<notin> allowed_wrap"
  then show "process_node (Tag name attrs children) = concat (map process_node children)"
    by (intro process_node_transparent) blast+
qed

theorem C8_child_order_witness:
  "lower ''div'' \<in> allowed_wrap
   \<and> process_node (Tag ''div'' Map.empty
        [NavigableString PlainString '' one '',
         Tag ''p'' Map.empty [NavigableString PlainString ''two''],
         NavigableString PlainString '' three '']) \<noteq> ''''
   \<and> process_node (Tag ''div'' Map.empty
        [NavigableString PlainString '' one '',
         Tag ''p'' Map.empty [NavigableString PlainString ''two''],
         NavigableString PlainString '' three '']) = ''<div>one<p>two</p>three</div>''
   \<and> lower ''title'' = ''title''
   \<and> process_node (Tag ''title'' Map.empty
        [NavigableString PlainString ''a'', NavigableString PlainString ''b'']) = ''<Title>ab</Title>''
   \<and> lower ''b'' \<notin> IGNORE_TAGS \<and> lower ''b'' \<noteq> ''meta'' \<and> lower ''b'' \<noteq> ''title''
   \<and> lower ''b'' \<notin> allowed_wrap
   \<and> process_node (Tag ''b'' Map.empty
        [NavigableString PlainString ''a'', NavigableString PlainString ''b'']) = ''ab''"
  using C8_child_order [where name = "''div''" and attrs = Map.empty
      and children = "[NavigableString PlainString '' one '',
         Tag ''p'' Map.empty [NavigableString PlainString ''two''],
         NavigableString PlainString '' three '']"
      and ?text1.0 = "NavigableString PlainString '' one ''"
      and elementA = "Tag ''p'' Map.empty [NavigableString PlainString ''two'']"
      and ?text2.0 = "NavigableString PlainString '' three ''"]
    C8_child_order [where name = "''title''" and attrs = Map.empty
      and children = "[NavigableString PlainString ''a'', NavigableString PlainString ''b'']"]
    C8_child_order [where name = "''b''" and attrs = Map.empty
      and children = "[NavigableString PlainString ''a'', NavigableString PlainString ''b'']"]
  by (simp add: lower_plain IGNORE_TAGS_def allowed_wrap_def strip_def isspace_def)

section \<open>Totality\<close>

lemma those_map_Some:
  "(\<And>x. x \<in> set xs \<Longrightarrow> f x = Some (g x)) \<Longrightarrow> those (map f xs) = Some (map g xs)"
  by (induction xs) simp_all

lemma height_child: "c \<in> set children \<Longrightarrow> height c \<le> foldr max (map height children) 0"
  by (induction children) auto

lemma process_node_depth_enough:
  "height n < depth \<Longrightarrow> process_node_depth depth n = Some (process_node n)"
proof (induction n arbitrary: depth)
  case (NavigableString k s)
  then obtain d where "depth = Suc d" by (cases depth) auto
  then show ?case by (simp add: Let_def)
next
  case Other
  then obtain d where "depth = Suc d" by (cases depth) auto
  then show ?case by simp
next
  case (Tag name attrs children)
  then obtain d where d: "depth = Suc d" by (cases depth) auto
  have "process_node_depth d c = Some (process_node c)" if "c \<in> set children" for c
  proof -
    from that have "height c \<le> foldr max (map height children) 0"
      by (rule height_child)
    with Tag.prems d have "height c < d" by simp
    with that show ?thesis by (rule Tag.IH)
  qed
  then have "those (map (process_node_depth d) children) = Some (map process_node children)"
    by (rule those_map_Some)
  then show ?case
    by (simp add: d Let_def)
qed

lemma process_node_no_content:
  "process_node (Tag name (attrs(''content'' := None)) []) = ''''"
  by (simp add: Let_def get_def strip_Nil)

lemma process_node_empty_children:
  assumes "lower name \<noteq> ''meta''" "concat (map process_node children) = ''''"
  shows "process_node (Tag name attrs children) = ''''"
proof -
  from assms(2) have "strip (concat (map process_node children)) = ''''"
    by (simp only: strip_Nil)
  with assms(1) show ?thesis
    by (simp add: Let_def)
qed

lemma process_node_depth_too_shallow:
  "process_node_depth 1 (Tag ''div'' Map.empty [NavigableString PlainString ''Hi'']) = None
   \<and> process_node_depth 2 (Tag ''div'' Map.empty [NavigableString PlainString ''Hi''])
       = Some ''<div>Hi</div>''"
  by (simp add: numeral_2_eq_2 lower_plain IGNORE_TAGS_def allowed_wrap_def strip_def isspace_def)

text \<open>
  C7. \<open>process_node\<close> returns a string for every node: any call depth above the nesting
  depth of the tree is enough for the recursion to return, with the value of
  \<open>process_node\<close>. The fallbacks are the empty string: an object without a name, a missing
  attribute, a tag without children and without a \<open>content\<close> attribute, and a tag other
  than \<open>meta\<close> whose children all reduce to nothing.
\<close>

theorem C7_total:
  "process_node_depth (Suc (height n) + k) n = Some (process_node n)
   \<and> process_node Other = ''''
   \<and> get (attrs(key := None)) key '''' = ''''
   \<and> process_node (Tag name (attrs(''content'' := None)) []) = ''''
   \<and> (lower name \<noteq> ''meta'' \<and> concat (map process_node children) = '''' \<longrightarrow>
        process_node (Tag name attrs children) = '''')"
proof (intro conjI impI)
  show "process_node_depth (Suc (height n) + k) n = Some (process_node n)"
    by (rule process_node_depth_enough) simp
  show "process_node Other = ''''"
    by simp
  show "get (attrs(key := None)) key '''' = ''''"
    by (simp add: get_def)
  show "process_node (Tag name (attrs(''content'' := None)) []) = ''''"
    by (rule process_node_no_content)
  assume "lower name \<noteq> ''meta'' \<and> concat (map process_node children) = ''''"
  then show "process_node (Tag name attrs children) = ''''"
    by (intro process_node_empty_children) blast+
qed

theorem C7_total_witness:
  "process_node_depth 3
     (Tag ''div'' Map.empty
        [Tag ''p'' Map.empty [NavigableString PlainString ''Hi''], NavigableString Comment ''c''])
     = Some ''<div><p>Hi</p></div>''
   \<and> lower ''div'' \<noteq> ''meta''
   \<and> concat (map process_node [Tag ''span'' Map.empty [NavigableString PlainString ''  ''], Other]) = ''''
   \<and> process_node (Tag ''div'' Map.empty
        [Tag ''span'' Map.empty [NavigableString PlainString ''  ''], Other]) = ''''"
  using C7_total [where n = "Tag ''div'' Map.empty
        [Tag ''p'' Map.empty [NavigableString PlainString ''Hi''], NavigableString Comment ''c'']"
      and k = 0 and name = "''div''" and attrs = Map.empty
      and children = "[Tag ''span'' Map.empty [NavigableString PlainString ''  ''], Other]"]
  by (simp add: numeral_3_eq_3 lower_plain IGNORE_TAGS_def allowed_wrap_def strip_def isspace_def)

section \<open>Whitespace runs\<close>

text \<open>
  \<open>runs\<close> cuts a string into pieces that are not empty, each of whitespace only or of other
  characters only, with the two kinds alternating: the pieces are the maximal runs.
\<close>

lemma runs_Cons_not_Nil: "runs (c # cs) \<noteq> []"
  by (simp split: list.splits)

lemma hd_hd_runs: "hd (hd (runs (c # cs))) = c"
  by (simp split: list.splits)

lemma runs_homogeneous_all:
  "\<forall>r \<in> set (runs s). r \<noteq> [] \<and> (list_all isspace r \<or> list_all (\<lambda>x. \<not> isspace x) r)"
proof (induction s)
  case Nil
  then show ?case by simp
next
  case (Cons c cs)
  show ?case
  proof (cases "runs cs")
    case Nil
    then show ?thesis by simp
  next
    case (Cons r rs)
    with Cons.IH have r: "r \<noteq> []" "list_all isspace r \<or> list_all (\<lambda>x. \<not> isspace x) r"
      and rs: "\<forall>q \<in> set rs. q \<noteq> [] \<and> (list_all isspace q \<or> list_all (\<lambda>x. \<not> isspace x) q)"
      by simp_all
    from r obtain x xs where x: "r = x # xs" by (cases r) auto
    show ?thesis
    proof (cases "isspace c = isspace (hd r)")
      case True
      with r rs x have "(c # r) \<noteq> [] \<and> (list_all isspace (c # r) \<or> list_all (\<lambda>x. \<not> isspace x) (c # r))"
        by auto
      with rs True show ?thesis by (simp add: Cons)
    next
      case False
      with r rs show ?thesis by (simp add: Cons)
    qed
  qed
qed

lemma runs_homogeneous:
  "r \<in> set (runs s) \<Longrightarrow> r \<noteq> [] \<and> (list_all isspace r \<or> list_all (\<lambda>x. \<not> isspace x) r)"
  using runs_homogeneous_all by blast

lemma list_all_run:
  "r \<in> set (runs s) \<Longrightarrow> list_all isspace r = isspace (hd r)"
  using runs_homogeneous [of r s] by (cases r) auto

lemma concat_runs: "concat (runs s) = s"
  by (induction s) (auto split: list.splits)

lemma runs_alternate:
  "Suc i < length (runs s) \<Longrightarrow> isspace (hd (runs s ! i)) \<noteq> isspace (hd (runs s ! Suc i))"
proof (induction s arbitrary: i)
  case Nil
  then show ?case by simp
next
  case (Cons c cs)
  show ?case
  proof (cases "runs cs")
    case Nil
    with Cons.prems show ?thesis by simp
  next
    case (Cons r rs)
    show ?thesis
    proof (cases "isspace c = isspace (hd r)")
      case True
      with Cons Cons.prems Cons.IH [of i] show ?thesis
        by (cases i) auto
    next
      case False
      with Cons Cons.prems Cons.IH [of "i - 1"] show ?thesis
        by (cases i) auto
    qed
  qed
qed

lemma collapse_runs_Nil: "collapse_runs [] = []"
  by (simp add: collapse_runs_def)

lemma collapse_runs_other:
  assumes "\<not> isspace c"
  shows "collapse_runs (c # cs) = c # collapse_runs cs"
proof (cases "runs cs")
  case Nil
  with assms show ?thesis by (simp add: collapse_runs_def)
next
  case (Cons r rs)
  then have "list_all isspace r = isspace (hd r)"
    using list_all_run [of r cs] by simp
  moreover from Cons have "r \<noteq> []"
    using runs_homogeneous [of r cs] by simp
  ultimately show ?thesis
    using assms Cons by (cases r) (auto simp: collapse_runs_def)
qed

lemma collapse_runs_space:
  assumes "isspace c"
  shows "collapse_runs (c # cs) = CHR '' '' # collapse_runs (dropWhile isspace cs)"
  using assms
proof (induction cs arbitrary: c)
  case Nil
  then show ?case by (simp add: collapse_runs_def)
next
  case (Cons d ds)
  obtain r rs where r: "runs (d # ds) = r # rs"
    using runs_Cons_not_Nil [of d ds] by (cases "runs (d # ds)") auto
  then have hd: "hd r = d"
    using hd_hd_runs [of d ds] by simp
  from r have all: "list_all isspace r = isspace d"
    using list_all_run [of r "d # ds"] hd by simp
  show ?case
  proof (cases "isspace d")
    case True
    with Cons.prems r hd all
    have "collapse_runs (c # d # ds) = collapse_runs (d # ds)"
      by (simp add: collapse_runs_def del: runs.simps(2)) (simp add: collapse_runs_def r)
    with True Cons.IH [of d] show ?thesis by simp
  next
    case False
    with Cons.prems r hd show ?thesis
      by (simp add: collapse_runs_def del: runs.simps(2)) (simp add: collapse_runs_def r)
  qed
qed

lemma re_sub_spaces_collapse_runs: "re_sub_spaces s = collapse_runs s"
  by (induction s rule: re_sub_spaces.induct)
    (simp_all add: collapse_runs_Nil collapse_runs_other collapse_runs_space)

section \<open>minify_html is idempotent\<close>

lemma re_sub_spaces_hd:
  "re_sub_spaces s = [] \<longleftrightarrow> s = []"
  "s \<noteq> [] \<Longrightarrow> \<not> isspace (hd s) \<Longrightarrow> hd (re_sub_spaces s) = hd s"
  by (cases s; simp)+

lemma collapsed_re_sub_spaces: "collapsed (re_sub_spaces s)"
proof (induction s rule: re_sub_spaces.induct)
  case 1
  then show ?case by simp
next
  case (2 c cs)
  show ?case
  proof (cases "isspace c")
    case True
    define t where "t = dropWhile isspace cs"
    from True 2 have ih: "collapsed (re_sub_spaces t)" by (simp add: t_def)
    show ?thesis
    proof (cases "t = []")
      case True
      with \<open>isspace c\<close> show ?thesis by (simp add: t_def [symmetric] isspace_def)
    next
      case False
      then have "\<not> isspace (hd t)"
        unfolding t_def by (metis hd_dropWhile)
      with False obtain d ds where "re_sub_spaces t = d # ds" "\<not> isspace d"
        using re_sub_spaces_hd [of t] by (cases "re_sub_spaces t") auto
      with ih \<open>isspace c\<close> show ?thesis by (simp add: t_def [symmetric] isspace_def)
    qed
  next
    case False
    with 2 have "collapsed (re_sub_spaces cs)" by simp
    with False show ?thesis by (cases "re_sub_spaces cs") simp_all
  qed
qed

lemma re_sub_spaces_collapsed: "collapsed s \<Longrightarrow> re_sub_spaces s = s"
  by (induction s rule: collapsed.induct) auto

lemma collapsed_append: "collapsed (a @ b) \<Longrightarrow> collapsed a \<and> collapsed b"
proof (induction a rule: collapsed.induct)
  case 1
  then show ?case by simp
next
  case (2 c)
  then show ?case by (cases b) auto
next
  case (3 c d cs)
  then show ?case by auto
qed

lemma strip_decomp: "\<exists>p w. s = p @ strip s @ w"
proof -
  define t where "t = dropWhile isspace s"
  have "s = takeWhile isspace s @ t"
    by (simp add: t_def)
  moreover have "rev t = takeWhile isspace (rev t) @ dropWhile isspace (rev t)"
    by simp
  then have "t = strip s @ rev (takeWhile isspace (rev t))"
    by (metis rev_append rev_rev_ident strip_def t_def)
  ultimately have "s = takeWhile isspace s @ strip s @ rev (takeWhile isspace (rev t))"
    by simp
  then show ?thesis by blast
qed

lemma collapsed_strip: "collapsed s \<Longrightarrow> collapsed (strip s)"
proof -
  assume c: "collapsed s"
  obtain p w where "s = p @ strip s @ w"
    using strip_decomp by blast
  with c have "collapsed (p @ strip s @ w)" by simp
  then have "collapsed (strip s @ w)" by (blast dest: collapsed_append)
  then show ?thesis by (blast dest: collapsed_append)
qed

lemma minify_html_idem: "minify_html (minify_html x) = minify_html x"
proof -
  have "collapsed (minify_html x)"
    unfolding minify_html_def by (intro collapsed_strip collapsed_re_sub_spaces)
  then have "re_sub_spaces (minify_html x) = minify_html x"
    by (rule re_sub_spaces_collapsed)
  then have "minify_html (minify_html x) = strip (minify_html x)"
    by (simp add: minify_html_def)
  also have "\<dots> = minify_html x"
    by (simp add: minify_html_def strip_strip)
  finally show ?thesis .
qed

lemma isspace_named:
  "isspace CHR '' ''" "isspace (CHR 0x09)" "isspace (CHR 0x0A)" "isspace (CHR 0x0D)"
  "isspace (CHR 0x0C)" "isspace (CHR 0x0B)" "isspace (CHR 0x85)" "isspace (CHR 0xA0)"
  by (simp_all add: isspace_def)

text \<open>
  C6. \<open>minify_html\<close> replaces every maximal run of whitespace (space, tab, newline, carriage
  return, form feed and the other whitespace characters) by one space and strips the
  result: it is the function \<open>minify_spec\<close> written from that description. Applying it
  twice is the same as applying it once. The string \<open>" a \n\n b \t c "\<close> becomes \<open>"a b c"\<close>.
\<close>

theorem C6_minify:
  "minify_html x = minify_spec x
   \<and> minify_html (minify_html x) = minify_html x
   \<and> list_all isspace [CHR '' '', CHR 0x09, CHR 0x0A, CHR 0x0D, CHR 0x0C]
   \<and> minify_html [CHR '' '', CHR ''a'', CHR '' '', CHR 0x0A, CHR 0x0A, CHR '' '', CHR ''b'',
        CHR '' '', CHR 0x09, CHR '' '', CHR ''c'', CHR '' ''] = ''a b c''"
proof (intro conjI)
  show "minify_html x = minify_spec x"
    by (simp add: minify_html_def minify_spec_def re_sub_spaces_collapse_runs)
  show "minify_html (minify_html x) = minify_html x"
    by (rule minify_html_idem)
  show "list_all isspace [CHR '' '', CHR 0x09, CHR 0x0A, CHR 0x0D, CHR 0x0C]"
    by (simp add: isspace_named)
  show "minify_html [CHR '' '', CHR ''a'', CHR '' '', CHR 0x0A, CHR 0x0A, CHR '' '', CHR ''b'',
        CHR '' '', CHR 0x09, CHR '' '', CHR ''c'', CHR '' ''] = ''a b c''"
    by (simp add: minify_html_def strip_def isspace_def)
qed

end
